theory Spec2Isabelle
  imports Complex_Main
begin

section \<open>Dates, hour quantities and the errors of date arithmetic\<close>

text \<open>
  A \<^verbatim>\<open>datetime.date\<close> is modelled by its proleptic Gregorian ordinal
  (\<^verbatim>\<open>date.toordinal()\<close>): day 1 is 0001-01-01 and day 3652059 is 9999-12-31,
  the largest date the type holds. Adding a \<^verbatim>\<open>timedelta\<close> whose result leaves
  that range raises \<^verbatim>\<open>OverflowError\<close>; the model returns it as a value.
\<close>

type_synonym date = int

text \<open>
  Modelled from the spec: the type of the fields \<^verbatim>\<open>effective_hours\<close> and
  \<^verbatim>\<open>allocated_hours\<close> of \<^verbatim>\<open>planning.slot\<close>, which are declared outside this
  repository. The specification calls the hour quantities decimals; they are exact
  rationals here, so no rounding takes place.
\<close>

type_synonym hours = rat

datatype py_error = OverflowError

definition date_max :: date where
  "date_max = 3652059"

definition valid_date :: "date \<Rightarrow> bool" where
  "valid_date d \<longleftrightarrow> 1 \<le> d \<and> d \<le> date_max"

definition date_add :: "date \<Rightarrow> int \<Rightarrow> py_error + date" where
  "date_add d n = (if valid_date (d + n) then Inr (d + n) else Inl OverflowError)"

definition max_hours_per_day :: hours where
  "max_hours_per_day = 8"

record allocation =
  date :: date
  hours :: hours

section \<open>The hour distribution of one slot\<close>

text \<open>\<^verbatim>\<open>range(total_days)\<close>: the offsets \<open>0, \<dots>, total_days - 1\<close>, none when
  \<open>total_days \<le> 0\<close>.\<close>

definition py_range :: "int \<Rightarrow> int list" where
  "py_range n = [0..n - 1]"

text \<open>
  The loop over the days of the range (source lines 63--84). The argument \<open>ex\<close> is the
  lookup \<^verbatim>\<open>timesheet_env.search([...])\<close> of the slot at hand, as a predicate of the date:
  it holds when a timesheet of the slot exists on that date. The first branch of the second
  equation is the \<^verbatim>\<open>break\<close>.
\<close>

fun range_loop ::
  "(date \<Rightarrow> bool) \<Rightarrow> date \<Rightarrow> int list \<Rightarrow> hours \<Rightarrow> allocation list
     \<Rightarrow> py_error + (hours \<times> allocation list)" where
  "range_loop ex start_date [] remaining_hours timesheet_data =
     Inr (remaining_hours, timesheet_data)"
| "range_loop ex start_date (day_offset # offsets) remaining_hours timesheet_data =
     (if remaining_hours \<le> 0 then Inr (remaining_hours, timesheet_data)
      else
        (case date_add start_date day_offset of
           Inl e \<Rightarrow> Inl e
         | Inr current_date \<Rightarrow>
             (let hours_for_day = min remaining_hours max_hours_per_day;
                  timesheet_data' =
                    (if \<not> ex current_date
                     then timesheet_data @ [\<lparr>date = current_date, hours = hours_for_day\<rparr>]
                     else timesheet_data)
              in range_loop ex start_date offsets (remaining_hours - hours_for_day)
                   timesheet_data')))"

text \<open>
  The loop over the days after the range (source lines 87--105): it runs while hours
  remain, and moves to the next day before it allocates.
\<close>

function spill_loop ::
  "(date \<Rightarrow> bool) \<Rightarrow> hours \<Rightarrow> date \<Rightarrow> allocation list
     \<Rightarrow> py_error + (hours \<times> allocation list)" where
  "spill_loop ex remaining_hours current_date timesheet_data =
     (if remaining_hours > 0 then
        (case date_add current_date 1 of
           Inl e \<Rightarrow> Inl e
         | Inr next_date \<Rightarrow>
             (let hours_for_day = min remaining_hours max_hours_per_day;
                  timesheet_data' =
                    (if \<not> ex next_date
                     then timesheet_data @ [\<lparr>date = next_date, hours = hours_for_day\<rparr>]
                     else timesheet_data)
              in spill_loop ex (remaining_hours - hours_for_day) next_date timesheet_data'))
      else Inr (remaining_hours, timesheet_data))"
  by pat_completeness auto
termination
proof (relation "measure (\<lambda>(ex, r :: hours, d, data). nat \<lceil>r / 8\<rceil>)")
  show "wf (measure (\<lambda>(ex, r :: hours, d, data). nat \<lceil>r / 8\<rceil>))"
    by simp
next
  fix ex :: "date \<Rightarrow> bool" and remaining_hours :: hours and current_date :: date
    and timesheet_data :: "allocation list" and next_date :: date
    and hours_for_day :: hours and timesheet_data' :: "allocation list"
  assume pos: "0 < remaining_hours"
    and h: "hours_for_day = min remaining_hours max_hours_per_day"
  have "\<lceil>(remaining_hours - hours_for_day) / 8\<rceil> < \<lceil>remaining_hours / 8\<rceil>"
  proof (cases "remaining_hours \<le> 8")
    case True
    then have "remaining_hours - hours_for_day = 0"
      using h by (simp add: max_hours_per_day_def)
    moreover have "0 < \<lceil>remaining_hours / 8\<rceil>"
      using pos by simp
    ultimately show ?thesis by simp
  next
    case False
    then have "(remaining_hours - hours_for_day) / 8 = remaining_hours / 8 - 1"
      using h by (simp add: max_hours_per_day_def diff_divide_distrib)
    then have "\<lceil>(remaining_hours - hours_for_day) / 8\<rceil> = \<lceil>remaining_hours / 8\<rceil> - 1"
      by (simp only: ceiling_diff_one)
    then show ?thesis by simp
  qed
  moreover have "0 < \<lceil>remaining_hours / 8\<rceil>"
    using pos by simp
  ultimately show
    "((ex, remaining_hours - hours_for_day, next_date, timesheet_data'),
      (ex, remaining_hours, current_date, timesheet_data))
       \<in> measure (\<lambda>(ex, r :: hours, d, data). nat \<lceil>r / 8\<rceil>)"
    by simp
qed

text \<open>
  The distribution of \<open>total_hours\<close> over the range and the days after it (source lines
  57--105): the hours left at the end and the collected \<^verbatim>\<open>timesheet_data\<close>.
\<close>

definition distribute ::
  "(date \<Rightarrow> bool) \<Rightarrow> hours \<Rightarrow> date \<Rightarrow> date \<Rightarrow> py_error + (hours \<times> allocation list)" where
  "distribute ex total_hours start_date end_date =
     (let total_days = (end_date - start_date) + 1 in
      case range_loop ex start_date (py_range total_days) total_hours [] of
        Inl e \<Rightarrow> Inl e
      | Inr (remaining_hours, timesheet_data) \<Rightarrow>
          spill_loop ex remaining_hours end_date timesheet_data)"

text \<open>
  The same loop with at most \<open>n\<close> iterations: \<open>None\<close> when hours remain after the
  \<open>n\<close>-th iteration, otherwise what the loop returns or raises. It counts the iterations
  of \<open>spill_loop\<close>.
\<close>

fun spill_loop_upto ::
  "nat \<Rightarrow> (date \<Rightarrow> bool) \<Rightarrow> hours \<Rightarrow> date \<Rightarrow> allocation list
     \<Rightarrow> (py_error + (hours \<times> allocation list)) option" where
  "spill_loop_upto 0 ex remaining_hours current_date timesheet_data =
     (if remaining_hours > 0 then None
      else Some (Inr (remaining_hours, timesheet_data)))"
| "spill_loop_upto (Suc n) ex remaining_hours current_date timesheet_data =
     (if remaining_hours > 0 then
        (case date_add current_date 1 of
           Inl e \<Rightarrow> Some (Inl e)
         | Inr next_date \<Rightarrow>
             (let hours_for_day = min remaining_hours max_hours_per_day;
                  timesheet_data' =
                    (if \<not> ex next_date
                     then timesheet_data @ [\<lparr>date = next_date, hours = hours_for_day\<rparr>]
                     else timesheet_data)
              in spill_loop_upto n ex (remaining_hours - hours_for_day) next_date
                   timesheet_data'))
      else Some (Inr (remaining_hours, timesheet_data)))"

section \<open>Slots, timesheets and the record store\<close>

text \<open>
  The records of \<^verbatim>\<open>planning.slot\<close> and \<^verbatim>\<open>account.analytic.line\<close> with the fields
  the operation reads and writes. A slot's \<open>slot_name\<close> is \<open>None\<close> for the value
  \<^verbatim>\<open>False\<close> of an unset name; \<open>allow_timesheets\<close> is the flag of the slot's project
  (\<^verbatim>\<open>project_id.allow_timesheets\<close>). The label of a timesheet keeps the two values
  that the source formats into its \<^verbatim>\<open>name\<close>: the slot's name or identifier, and the date.
\<close>

record slot =
  slot_id :: int
  slot_name :: "string option"
  resource_id :: int
  employee_id :: int
  project_id :: int
  allow_timesheets :: bool
  effective_hours :: hours
  allocated_hours :: hours

datatype slot_label = SlotName string | SlotId int

record timesheet =
  ts_id :: int
  ts_employee_id :: int
  ts_project_id :: int
  ts_partner_id :: int
  ts_date :: date
  ts_unit_amount :: hours
  ts_name :: "slot_label \<times> date"
  ts_slot_id :: int

text \<open>
  The store behind \<^verbatim>\<open>self.env\<close>: the slots in the order a search returns them, the
  timesheet lines in the order of their creation, and the identifier the next created line
  gets.
\<close>

record env =
  planning_slots :: "slot list"
  analytic_lines :: "timesheet list"
  next_id :: int

text \<open>\<^verbatim>\<open>if specific_slot_id:\<close> holds for an identifier other than \<^verbatim>\<open>None\<close> and 0.\<close>

definition truthy :: "int option \<Rightarrow> bool" where
  "truthy specific_slot_id =
     (case specific_slot_id of None \<Rightarrow> False | Some i \<Rightarrow> i \<noteq> 0)"

text \<open>The search of the planning slots with the domain of source lines 31--40.\<close>

definition search_slots :: "env \<Rightarrow> int \<Rightarrow> int option \<Rightarrow> slot list" where
  "search_slots e partner_id specific_slot_id =
     filter
       (\<lambda>s. resource_id s = partner_id \<and> allow_timesheets s
          \<and> (effective_hours s > 0 \<or> allocated_hours s > 0)
          \<and> (if truthy specific_slot_id then Some (slot_id s) = specific_slot_id else True))
       (planning_slots e)"

text \<open>The search of the timesheet lines of a slot on a date (source lines 72--77, 93--98).\<close>

definition existing_timesheet :: "env \<Rightarrow> slot \<Rightarrow> date \<Rightarrow> timesheet list" where
  "existing_timesheet e s d =
     filter
       (\<lambda>t. ts_slot_id t = slot_id s \<and> ts_employee_id t = employee_id s
          \<and> ts_project_id t = project_id s \<and> ts_date t = d)
       (analytic_lines e)"

text \<open>The hours of a slot (source lines 50--53); both branches of the source agree.\<close>

definition slot_total_hours :: "int option \<Rightarrow> slot \<Rightarrow> hours" where
  "slot_total_hours specific_slot_id s =
     (if truthy specific_slot_id \<and> Some (slot_id s) = specific_slot_id
      then (if effective_hours s \<noteq> 0 \<and> effective_hours s > 0
            then effective_hours s else allocated_hours s)
      else (if effective_hours s \<noteq> 0 \<and> effective_hours s > 0
            then effective_hours s else allocated_hours s))"

definition slot_label_of :: "slot \<Rightarrow> slot_label" where
  "slot_label_of s =
     (case slot_name s of
        None \<Rightarrow> SlotId (slot_id s)
      | Some n \<Rightarrow> if n = [] then SlotId (slot_id s) else SlotName n)"

text \<open>The creation of the timesheets of one slot from its collected data (lines 108--119).\<close>

fun create_timesheets ::
  "slot \<Rightarrow> allocation list \<Rightarrow> env \<Rightarrow> int list \<Rightarrow> env \<times> int list" where
  "create_timesheets s [] e created_timesheets = (e, created_timesheets)"
| "create_timesheets s (data # rest) e created_timesheets =
     (let timesheet_vals =
            \<lparr>ts_id = next_id e,
             ts_employee_id = employee_id s,
             ts_project_id = project_id s,
             ts_partner_id = resource_id s,
             ts_date = date data,
             ts_unit_amount = hours data,
             ts_name = (slot_label_of s, date data),
             ts_slot_id = slot_id s\<rparr>;
          e' = e\<lparr>analytic_lines := analytic_lines e @ [timesheet_vals],
                 next_id := next_id e + 1\<rparr>
      in create_timesheets s rest e' (created_timesheets @ [ts_id timesheet_vals]))"

text \<open>The loop over the slots found (source lines 48--119).\<close>

fun slots_loop ::
  "int option \<Rightarrow> date \<Rightarrow> date \<Rightarrow> slot list \<Rightarrow> env \<Rightarrow> int list
     \<Rightarrow> py_error + (env \<times> int list)" where
  "slots_loop specific_slot_id start_date end_date [] e created_timesheets =
     Inr (e, created_timesheets)"
| "slots_loop specific_slot_id start_date end_date (s # slots) e created_timesheets =
     (let total_hours = slot_total_hours specific_slot_id s in
      if total_hours \<le> 0
      then slots_loop specific_slot_id start_date end_date slots e created_timesheets
      else
        (case distribute (\<lambda>d. existing_timesheet e s d \<noteq> []) total_hours
                start_date end_date of
           Inl err \<Rightarrow> Inl err
         | Inr (remaining_hours, timesheet_data) \<Rightarrow>
             (case create_timesheets s timesheet_data e created_timesheets of
                (e', created_timesheets') \<Rightarrow>
                  slots_loop specific_slot_id start_date end_date slots e'
                    created_timesheets')))"

section \<open>The operation and its result\<close>

record response =
  status :: string
  message :: string
  timesheet_ids :: "int list option"

text \<open>The decimal digits of a length, as \<^verbatim>\<open>f'{len(created_timesheets)}'\<close> writes them.\<close>

fun str_nat :: "nat \<Rightarrow> string" where
  "str_nat n =
     (if n < 10 then [''0123456789'' ! n]
      else str_nat (n div 10) @ [''0123456789'' ! (n mod 10)])"

definition error_response :: "string \<Rightarrow> response" where
  "error_response msg = \<lparr>status = ''error'', message = msg, timesheet_ids = None\<rparr>"

definition success_response :: "int list \<Rightarrow> response" where
  "success_response created_timesheets =
     \<lparr>status = ''success'',
      message = ''Created '' @ str_nat (length created_timesheets) @ '' timesheet entries.'',
      timesheet_ids = Some created_timesheets\<rparr>"

text \<open>
  \<^verbatim>\<open>create_timesheet_from_effective_hours\<close> (source lines 7--125). The parser
  \<^verbatim>\<open>datetime.strptime(_, '%Y-%m-%d').date()\<close> of the standard library is the parameter
  \<open>strptime\<close>: \<open>None\<close> is its \<^verbatim>\<open>ValueError\<close>, which the source catches. The result is
  the returned dictionary and the store after the call, or the error the call raises.
\<close>

definition create_timesheet_from_effective_hours ::
  "(string \<Rightarrow> date option) \<Rightarrow> env \<Rightarrow> int \<Rightarrow> string \<Rightarrow> string \<Rightarrow> int option \<Rightarrow> hours option
     \<Rightarrow> py_error + (response \<times> env)" where
  "create_timesheet_from_effective_hours strptime e partner_id start_date end_date
       specific_slot_id specific_hours =
     (case strptime start_date of
        None \<Rightarrow> Inr (error_response ''Invalid date format. Use YYYY-MM-DD.'', e)
      | Some start_date' \<Rightarrow>
     (case strptime end_date of
        None \<Rightarrow> Inr (error_response ''Invalid date format. Use YYYY-MM-DD.'', e)
      | Some end_date' \<Rightarrow>
          if start_date' > end_date'
          then Inr (error_response ''Start date cannot be after end date.'', e)
          else
            (let slots = search_slots e partner_id specific_slot_id in
             if slots = []
             then Inr (error_response
               ''No planning slots found with effective or allocated hours for this customer.'', e)
             else
               (case slots_loop specific_slot_id start_date' end_date' slots e [] of
                  Inl err \<Rightarrow> Inl err
                | Inr (e', created_timesheets) \<Rightarrow>
                    Inr (success_response created_timesheets, e')))))"

text \<open>\<^verbatim>\<open>action_generate_timesheets\<close> (source lines 127--136) passes its arguments on.\<close>

definition action_generate_timesheets ::
  "(string \<Rightarrow> date option) \<Rightarrow> env \<Rightarrow> int \<Rightarrow> string \<Rightarrow> string \<Rightarrow> int option \<Rightarrow> hours option
     \<Rightarrow> py_error + (response \<times> env)" where
  "action_generate_timesheets strptime e partner_id start_date end_date
       specific_slot_id specific_hours =
     create_timesheet_from_effective_hours strptime e partner_id start_date end_date
       specific_slot_id specific_hours"

section \<open>An invariant and sample inputs\<close>

text \<open>
  Inputs for the instances below: lookups that find no timesheet, or one on a single date;
  a table of parsed date strings (2025-05-16 is day 739387, 2025-05-19 is day 739390,
  9999-12-31 is day 3652059); one slot of 16 allocated hours of customer 3; and two stores
  holding that slot, the second with timesheets of the slot on 2025-05-16 and 2025-05-17.
\<close>

text \<open>The bound on the hours of one allocation, as an invariant of the collected data.\<close>

definition share_ok :: "allocation \<Rightarrow> bool" where
  "share_ok a \<longleftrightarrow> 0 < hours a \<and> hours a \<le> max_hours_per_day"

definition no_existing :: "date \<Rightarrow> bool" where
  "no_existing d = False"

definition existing_on :: "date \<Rightarrow> date \<Rightarrow> bool" where
  "existing_on d0 d \<longleftrightarrow> d = d0"

definition sample_strptime :: "string \<Rightarrow> date option" where
  "sample_strptime s =
     (if s = ''2025-05-16'' then Some 739387
      else if s = ''2025-05-19'' then Some 739390
      else if s = ''9999-12-31'' then Some 3652059
      else None)"

definition sample_slot :: slot where
  "sample_slot =
     \<lparr>slot_id = 7, slot_name = Some ''Audit'', resource_id = 3, employee_id = 5,
      project_id = 2, allow_timesheets = True, effective_hours = 0, allocated_hours = 16\<rparr>"

definition sample_line :: "int \<Rightarrow> date \<Rightarrow> timesheet" where
  "sample_line i d =
     \<lparr>ts_id = i, ts_employee_id = 5, ts_project_id = 2, ts_partner_id = 3, ts_date = d,
      ts_unit_amount = 8, ts_name = (SlotName ''Audit'', d), ts_slot_id = 7\<rparr>"

definition sample_env :: env where
  "sample_env = \<lparr>planning_slots = [sample_slot], analytic_lines = [], next_id = 1\<rparr>"

definition sample_env_done :: env where
  "sample_env_done =
     \<lparr>planning_slots = [sample_slot],
      analytic_lines = [sample_line 1 739387, sample_line 2 739388], next_id = 3\<rparr>"

section \<open>Properties of the two loops\<close>

declare spill_loop.simps [simp del]

subsection \<open>One iteration\<close>

lemma ceiling_share_step:
  fixes r :: hours
  assumes "0 < r"
  shows "\<lceil>(r - min r max_hours_per_day) / 8\<rceil> = \<lceil>r / 8\<rceil> - 1"
proof (cases "r \<le> 8")
  case True
  then have "\<lceil>r / 8\<rceil> = 1"
    using assms by (simp add: ceiling_eq_iff)
  with True show ?thesis
    by (simp add: max_hours_per_day_def)
next
  case False
  then have "(r - min r max_hours_per_day) / 8 = r / 8 - 1"
    by (simp add: max_hours_per_day_def diff_divide_distrib)
  then show ?thesis
    by (simp only: ceiling_diff_one)
qed

lemma date_add_Inr: "date_add d n = Inr d' \<Longrightarrow> d' = d + n \<and> valid_date (d + n)"
  by (simp add: date_add_def split: if_splits)

subsection \<open>Existing timesheets only remove allocations\<close>

lemma range_loop_filter:
  "range_loop ex s offs r (filter (\<lambda>a. \<not> ex (date a)) data) =
     (case range_loop (\<lambda>d. False) s offs r data of
        Inl e \<Rightarrow> Inl e
      | Inr (r', data') \<Rightarrow> Inr (r', filter (\<lambda>a. \<not> ex (date a)) data'))"
proof (induction offs arbitrary: r data)
  case Nil
  show ?case by simp
next
  case (Cons off offs)
  show ?case
  proof (cases "r \<le> 0")
    case True
    then show ?thesis by simp
  next
    case False
    show ?thesis
    proof (cases "date_add s off")
      case (Inl e)
      with False show ?thesis by simp
    next
      case (Inr d)
      let ?a = "\<lparr>date = d, hours = min r max_hours_per_day\<rparr>"
      have "range_loop ex s (off # offs) r (filter (\<lambda>a. \<not> ex (date a)) data) =
            range_loop ex s offs (r - min r max_hours_per_day)
              (filter (\<lambda>a. \<not> ex (date a)) (data @ [?a]))"
        using False Inr by (simp add: Let_def)
      also have "\<dots> = (case range_loop (\<lambda>d. False) s offs (r - min r max_hours_per_day) (data @ [?a]) of
          Inl e \<Rightarrow> Inl e
        | Inr (r', data') \<Rightarrow> Inr (r', filter (\<lambda>a. \<not> ex (date a)) data'))"
        by (rule Cons.IH)
      also have "range_loop (\<lambda>d. False) s offs (r - min r max_hours_per_day) (data @ [?a]) =
            range_loop (\<lambda>d. False) s (off # offs) r data"
        using False Inr by (simp add: Let_def)
      finally show ?thesis .
    qed
  qed
qed

lemma spill_loop_stop: "r \<le> 0 \<Longrightarrow> spill_loop ex r cur data = Inr (r, data)"
  by (subst spill_loop.simps) simp

lemma spill_loop_overflow:
  "0 < r \<Longrightarrow> date_add cur 1 = Inl e \<Longrightarrow> spill_loop ex r cur data = Inl e"
  by (subst spill_loop.simps) simp

lemma spill_loop_step:
  "0 < r \<Longrightarrow> date_add cur 1 = Inr d \<Longrightarrow>
   spill_loop ex r cur data =
     spill_loop ex (r - min r max_hours_per_day) d
       (if \<not> ex d then data @ [\<lparr>date = d, hours = min r max_hours_per_day\<rparr>] else data)"
  by (subst spill_loop.simps) (simp add: Let_def)

lemma spill_loop_filter_gen:
  assumes "\<And>d. \<not> ex0 d"
  shows "spill_loop ex r cur (filter (\<lambda>a. \<not> ex (date a)) data) =
     (case spill_loop ex0 r cur data of
        Inl e \<Rightarrow> Inl e
      | Inr (r', data') \<Rightarrow> Inr (r', filter (\<lambda>a. \<not> ex (date a)) data'))"
  using assms
proof (induction ex0 r cur data rule: spill_loop.induct)
  case (1 ex0 r cur data)
  show ?case
  proof (cases "0 < r")
    case False
    then show ?thesis by (simp add: spill_loop_stop)
  next
    case pos: True
    show ?thesis
    proof (cases "date_add cur 1")
      case (Inl e)
      with pos show ?thesis by (simp add: spill_loop_overflow)
    next
      case (Inr d)
      let ?a = "\<lparr>date = d, hours = min r max_hours_per_day\<rparr>"
      let ?r = "r - min r max_hours_per_day"
      have keep: "(if \<not> ex0 d then data @ [?a] else data) = data @ [?a]"
        using "1.prems" by simp
      have "spill_loop ex r cur (filter (\<lambda>a. \<not> ex (date a)) data) =
            spill_loop ex ?r d (filter (\<lambda>a. \<not> ex (date a)) (data @ [?a]))"
        using pos Inr by (simp add: spill_loop_step)
      also have "\<dots> = (case spill_loop ex0 ?r d (data @ [?a]) of
            Inl e \<Rightarrow> Inl e
          | Inr (r', data') \<Rightarrow> Inr (r', filter (\<lambda>a. \<not> ex (date a)) data'))"
        using "1.IH" [OF pos Inr refl refl "1.prems"] unfolding keep .
      also have "spill_loop ex0 ?r d (data @ [?a]) = spill_loop ex0 r cur data"
        unfolding spill_loop_step [OF pos Inr, of ex0 data] keep ..
      finally show ?thesis .
    qed
  qed
qed

lemma distribute_filter:
  "distribute ex total_hours s e =
     (case distribute (\<lambda>d. False) total_hours s e of
        Inl err \<Rightarrow> Inl err
      | Inr (r, data) \<Rightarrow> Inr (r, filter (\<lambda>a. \<not> ex (date a)) data))"
proof -
  let ?offs = "py_range (e - s + 1)"
  have 1: "range_loop ex s ?offs total_hours [] =
     (case range_loop (\<lambda>d. False) s ?offs total_hours [] of
        Inl e \<Rightarrow> Inl e
      | Inr (r', data') \<Rightarrow> Inr (r', filter (\<lambda>a. \<not> ex (date a)) data'))"
    using range_loop_filter [of ex s ?offs total_hours "[]"] by simp
  show ?thesis
  proof (cases "range_loop (\<lambda>d. False) s ?offs total_hours []")
    case (Inl err)
    with 1 show ?thesis by (simp add: distribute_def)
  next
    case (Inr p)
    obtain r1 data1 where p: "p = (r1, data1)" by (cases p)
    have "distribute ex total_hours s e = spill_loop ex r1 e (filter (\<lambda>a. \<not> ex (date a)) data1)"
      using 1 Inr p by (simp add: distribute_def)
    also have "\<dots> = (case spill_loop (\<lambda>d. False) r1 e data1 of
        Inl e \<Rightarrow> Inl e
      | Inr (r', data') \<Rightarrow> Inr (r', filter (\<lambda>a. \<not> ex (date a)) data'))"
      by (rule spill_loop_filter_gen) simp
    also have "spill_loop (\<lambda>d. False) r1 e data1 = distribute (\<lambda>d. False) total_hours s e"
      using Inr p by (simp add: distribute_def)
    finally show ?thesis .
  qed
qed

subsection \<open>Bounds, sums and the hours left\<close>

lemma range_loop_bounds:
  "range_loop ex s offs r data = Inr (r', data') \<Longrightarrow> list_all share_ok data \<Longrightarrow> list_all share_ok data'"
proof (induction offs arbitrary: r data)
  case Nil
  then show ?case by simp
next
  case (Cons off offs)
  show ?case
  proof (cases "r \<le> 0")
    case True
    with Cons.prems show ?thesis by simp
  next
    case False
    then obtain d where d: "date_add s off = Inr d"
      using Cons.prems(1) by (cases "date_add s off") simp_all
    let ?a = "\<lparr>date = d, hours = min r max_hours_per_day\<rparr>"
    let ?data = "if \<not> ex d then data @ [?a] else data"
    have run: "range_loop ex s offs (r - min r max_hours_per_day) ?data = Inr (r', data')"
      using Cons.prems(1) False d by (simp add: Let_def)
    have "share_ok ?a"
      using False by (simp add: share_ok_def max_hours_per_day_def)
    then have "list_all share_ok ?data"
      using Cons.prems(2) by simp
    with run show ?thesis
      by (rule Cons.IH)
  qed
qed

lemma spill_loop_bounds:
  "spill_loop ex r cur data = Inr (r', data') \<Longrightarrow> list_all share_ok data \<Longrightarrow> list_all share_ok data'"
proof (induction ex r cur data rule: spill_loop.induct)
  case (1 ex r cur data)
  show ?case
  proof (cases "0 < r")
    case False
    with "1.prems" show ?thesis by (simp add: spill_loop_stop)
  next
    case pos: True
    then obtain d where d: "date_add cur 1 = Inr d"
      using "1.prems"(1) by (cases "date_add cur 1") (simp_all add: spill_loop_overflow)
    let ?a = "\<lparr>date = d, hours = min r max_hours_per_day\<rparr>"
    let ?data = "if \<not> ex d then data @ [?a] else data"
    have run: "spill_loop ex (r - min r max_hours_per_day) d ?data = Inr (r', data')"
      using "1.prems"(1) spill_loop_step [OF pos d, of ex data] by simp
    have "share_ok ?a"
      using pos by (simp add: share_ok_def max_hours_per_day_def)
    then have "list_all share_ok ?data"
      using "1.prems"(2) by simp
    with "1.IH" [OF pos d refl refl run] show ?thesis .
  qed
qed

lemma range_loop_stop: "r \<le> 0 \<Longrightarrow> range_loop ex s (off # offs) r data = Inr (r, data)"
  by simp

lemma range_loop_overflow:
  "0 < r \<Longrightarrow> date_add s off = Inl e \<Longrightarrow> range_loop ex s (off # offs) r data = Inl e"
  by simp

lemma range_loop_step:
  "0 < r \<Longrightarrow> date_add s off = Inr d \<Longrightarrow>
   range_loop ex s (off # offs) r data =
     range_loop ex s offs (r - min r max_hours_per_day)
       (if \<not> ex d then data @ [\<lparr>date = d, hours = min r max_hours_per_day\<rparr>] else data)"
  by (simp add: Let_def)

declare range_loop.simps(2) [simp del]

lemma range_loop_sum:
  assumes "\<And>d. \<not> ex d"
  shows "range_loop ex s offs r data = Inr (r', data') \<Longrightarrow>
    r' + sum_list (map hours data') = r + sum_list (map hours data)"
proof (induction offs arbitrary: r data)
  case Nil
  then show ?case by simp
next
  case (Cons off offs)
  show ?case
  proof (cases "0 < r")
    case False
    with Cons.prems show ?thesis by (simp add: range_loop_stop)
  next
    case pos: True
    then obtain d where d: "date_add s off = Inr d"
      using Cons.prems by (cases "date_add s off") (simp_all add: range_loop_overflow)
    let ?a = "\<lparr>date = d, hours = min r max_hours_per_day\<rparr>"
    let ?data = "if \<not> ex d then data @ [?a] else data"
    have keep: "?data = data @ [?a]"
      using assms by simp
    have run: "range_loop ex s offs (r - min r max_hours_per_day) ?data = Inr (r', data')"
      using Cons.prems unfolding range_loop_step [OF pos d, of ex offs data] .
    have "r' + sum_list (map hours data') =
        (r - min r max_hours_per_day) + sum_list (map hours ?data)"
      using Cons.IH [OF run] .
    then show ?thesis unfolding keep by simp
  qed
qed

lemma spill_loop_sum:
  assumes "\<And>d. \<not> ex d"
  shows "spill_loop ex r cur data = Inr (r', data') \<Longrightarrow>
    r' + sum_list (map hours data') = r + sum_list (map hours data)"
  using assms
proof (induction ex r cur data rule: spill_loop.induct)
  case (1 ex r cur data)
  show ?case
  proof (cases "0 < r")
    case False
    with "1.prems" show ?thesis by (simp add: spill_loop_stop)
  next
    case pos: True
    then obtain d where d: "date_add cur 1 = Inr d"
      using "1.prems"(1) by (cases "date_add cur 1") (simp_all add: spill_loop_overflow)
    let ?a = "\<lparr>date = d, hours = min r max_hours_per_day\<rparr>"
    let ?data = "if \<not> ex d then data @ [?a] else data"
    have keep: "?data = data @ [?a]"
      using "1.prems"(2) by simp
    have run: "spill_loop ex (r - min r max_hours_per_day) d ?data = Inr (r', data')"
      using "1.prems"(1) spill_loop_step [OF pos d, of ex data] by simp
    have "r' + sum_list (map hours data') =
        (r - min r max_hours_per_day) + sum_list (map hours ?data)"
      using "1.IH" [OF pos d refl refl run "1.prems"(2)] .
    then show ?thesis unfolding keep by simp
  qed
qed

lemma range_loop_remaining:
  "\<forall>off\<in>set offs. valid_date (s + off) \<Longrightarrow>
   \<exists>data'. range_loop ex s offs r data =
     Inr (if r \<le> 0 then r else max 0 (r - 8 * of_nat (length offs)), data')"
proof (induction offs arbitrary: r data)
  case Nil
  then show ?case by simp
next
  case (Cons off offs)
  show ?case
  proof (cases "0 < r")
    case False
    then show ?thesis by (simp add: range_loop_stop)
  next
    case pos: True
    have d: "date_add s off = Inr (s + off)"
      using Cons.prems by (simp add: date_add_def)
    let ?a = "\<lparr>date = s + off, hours = min r max_hours_per_day\<rparr>"
    let ?data = "if \<not> ex (s + off) then data @ [?a] else data"
    let ?r = "r - min r max_hours_per_day"
    from Cons.prems have "\<forall>off\<in>set offs. valid_date (s + off)" by simp
    from Cons.IH [OF this, of ?r ?data] obtain data' where
      "range_loop ex s offs ?r ?data =
        Inr (if ?r \<le> 0 then ?r else max 0 (?r - 8 * of_nat (length offs)), data')" ..
    moreover have "(if ?r \<le> 0 then ?r else max 0 (?r - 8 * of_nat (length offs))) =
        max 0 (r - 8 * of_nat (length (off # offs)))"
      using pos by (simp add: max_hours_per_day_def min_def max_def algebra_simps)
    ultimately show ?thesis
      using pos range_loop_step [OF pos d, of ex offs data] by simp
  qed
qed

lemma spill_loop_returns:
  "valid_date cur \<Longrightarrow> cur + \<lceil>r / 8\<rceil> \<le> date_max \<Longrightarrow>
   \<exists>data'. spill_loop ex r cur data = Inr (min r 0, data')"
proof (induction ex r cur data rule: spill_loop.induct)
  case (1 ex r cur data)
  show ?case
  proof (cases "0 < r")
    case False
    then show ?thesis by (simp add: spill_loop_stop)
  next
    case pos: True
    have k: "\<lceil>(r - min r max_hours_per_day) / 8\<rceil> = \<lceil>r / 8\<rceil> - 1"
      by (rule ceiling_share_step [OF pos])
    have "0 < \<lceil>r / 8\<rceil>" using pos by simp
    then have v: "valid_date (cur + 1)"
      using "1.prems" unfolding valid_date_def by linarith
    then have d: "date_add cur 1 = Inr (cur + 1)"
      by (simp add: date_add_def)
    let ?a = "\<lparr>date = cur + 1, hours = min r max_hours_per_day\<rparr>"
    let ?data = "if \<not> ex (cur + 1) then data @ [?a] else data"
    let ?r = "r - min r max_hours_per_day"
    have "cur + 1 + \<lceil>?r / 8\<rceil> \<le> date_max"
      using "1.prems"(2) k by simp
    from "1.IH" [OF pos d refl refl v this] obtain data' where
      "spill_loop ex ?r (cur + 1) ?data = Inr (min ?r 0, data')" ..
    moreover have "min ?r 0 = min r 0"
      using pos by (simp add: max_hours_per_day_def min_def)
    ultimately show ?thesis
      using spill_loop_step [OF pos d, of ex data] by simp
  qed
qed

lemma spill_loop_raises:
  "0 < r \<Longrightarrow> date_max < cur + \<lceil>r / 8\<rceil> \<Longrightarrow> spill_loop ex r cur data = Inl OverflowError"
proof (induction ex r cur data rule: spill_loop.induct)
  case (1 ex r cur data)
  note pos = \<open>0 < r\<close>
  show ?case
  proof (cases "date_add cur 1")
    case (Inl e)
    then show ?thesis
      using pos by (cases e) (simp add: spill_loop_overflow)
  next
    case (Inr d)
    then have d: "d = cur + 1" and v: "valid_date (cur + 1)"
      using date_add_Inr by blast+
    let ?a = "\<lparr>date = d, hours = min r max_hours_per_day\<rparr>"
    let ?data = "if \<not> ex d then data @ [?a] else data"
    let ?r = "r - min r max_hours_per_day"
    have k: "\<lceil>?r / 8\<rceil> = \<lceil>r / 8\<rceil> - 1"
      by (rule ceiling_share_step [OF pos])
    have far: "date_max < d + \<lceil>?r / 8\<rceil>"
      using "1.prems"(2) k d by simp
    have "0 < ?r"
    proof (rule ccontr)
      assume "\<not> 0 < ?r"
      then have "\<lceil>?r / 8\<rceil> \<le> 0"
        by (simp add: ceiling_le_zero divide_le_0_iff)
      with far v d show False
        unfolding valid_date_def by linarith
    qed
    from "1.IH" [OF pos Inr refl refl this far]
    show ?thesis
      using spill_loop_step [OF pos Inr, of ex data] by simp
  qed
qed

subsection \<open>The dates of the allocations\<close>

lemma nat_ceiling_share_step:
  fixes r :: hours
  assumes "0 < r"
  shows "nat \<lceil>r / 8\<rceil> = Suc (nat \<lceil>(r - min r max_hours_per_day) / 8\<rceil>)"
proof -
  have "0 < \<lceil>r / 8\<rceil>" using assms by simp
  then show ?thesis
    unfolding ceiling_share_step [OF assms] by linarith
qed

lemma range_loop_dates:
  "range_loop ex s offs r data = Inr (r', data') \<Longrightarrow>
   map date data' =
     map date data @ filter (\<lambda>d. \<not> ex d) (map ((+) s) (take (nat \<lceil>r / 8\<rceil>) offs))"
proof (induction offs arbitrary: r data)
  case Nil
  then show ?case by simp
next
  case (Cons off offs)
  show ?case
  proof (cases "0 < r")
    case False
    then have "\<lceil>r / 8\<rceil> \<le> 0"
      by (simp add: ceiling_le_zero divide_le_0_iff)
    with False Cons.prems show ?thesis
      by (simp add: range_loop_stop)
  next
    case pos: True
    then obtain d where d: "date_add s off = Inr d"
      using Cons.prems by (cases "date_add s off") (simp_all add: range_loop_overflow)
    then have d_eq: "d = s + off"
      using date_add_Inr by blast
    let ?a = "\<lparr>date = d, hours = min r max_hours_per_day\<rparr>"
    let ?data = "if \<not> ex d then data @ [?a] else data"
    let ?r = "r - min r max_hours_per_day"
    have run: "range_loop ex s offs ?r ?data = Inr (r', data')"
      using Cons.prems unfolding range_loop_step [OF pos d, of ex offs data] .
    have "map date data' =
        map date ?data @ filter (\<lambda>d. \<not> ex d) (map ((+) s) (take (nat \<lceil>?r / 8\<rceil>) offs))"
      using Cons.IH [OF run] .
    then show ?thesis
      unfolding nat_ceiling_share_step [OF pos] d_eq by simp
  qed
qed

lemma spill_loop_dates:
  "spill_loop ex r cur data = Inr (r', data') \<Longrightarrow>
   map date data' = map date data @ filter (\<lambda>d. \<not> ex d) [cur + 1..cur + \<lceil>r / 8\<rceil>]"
proof (induction ex r cur data rule: spill_loop.induct)
  case (1 ex r cur data)
  show ?case
  proof (cases "0 < r")
    case False
    then have "\<lceil>r / 8\<rceil> \<le> 0"
      by (simp add: ceiling_le_zero divide_le_0_iff)
    with False "1.prems" show ?thesis
      by (simp add: spill_loop_stop)
  next
    case pos: True
    then obtain d where d: "date_add cur 1 = Inr d"
      using "1.prems"(1) by (cases "date_add cur 1") (simp_all add: spill_loop_overflow)
    then have d_eq: "d = cur + 1"
      using date_add_Inr by blast
    let ?a = "\<lparr>date = d, hours = min r max_hours_per_day\<rparr>"
    let ?data = "if \<not> ex d then data @ [?a] else data"
    let ?r = "r - min r max_hours_per_day"
    have run: "spill_loop ex ?r d ?data = Inr (r', data')"
      using "1.prems"(1) unfolding spill_loop_step [OF pos d, of ex data] .
    have IH: "map date data' =
        map date ?data @ filter (\<lambda>d. \<not> ex d) [d + 1..d + \<lceil>?r / 8\<rceil>]"
      using "1.IH" [OF pos d refl refl run] .
    have "0 < \<lceil>r / 8\<rceil>" using pos by simp
    then have "[cur + 1..cur + \<lceil>r / 8\<rceil>] = (cur + 1) # [d + 1..d + \<lceil>?r / 8\<rceil>]"
      unfolding ceiling_share_step [OF pos] d_eq
      by (subst upto_rec1) (simp_all add: algebra_simps)
    with IH show ?thesis
      unfolding d_eq by simp
  qed
qed

subsection \<open>The number of iterations\<close>

lemma spill_loop_upto_enough:
  "nat \<lceil>r / 8\<rceil> \<le> n \<Longrightarrow> spill_loop_upto n ex r cur data = Some (spill_loop ex r cur data)"
proof (induction n arbitrary: r cur data)
  case 0
  then have "r \<le> 0"
    by (simp add: ceiling_le_zero divide_le_0_iff)
  then show ?case
    by (simp add: spill_loop_stop)
next
  case (Suc n)
  show ?case
  proof (cases "0 < r")
    case False
    then show ?thesis
      by (simp add: spill_loop_stop)
  next
    case pos: True
    show ?thesis
    proof (cases "date_add cur 1")
      case (Inl e)
      with pos show ?thesis
        by (simp add: spill_loop_overflow)
    next
      case (Inr d)
      let ?a = "\<lparr>date = d, hours = min r max_hours_per_day\<rparr>"
      let ?data = "if \<not> ex d then data @ [?a] else data"
      let ?r = "r - min r max_hours_per_day"
      have "nat \<lceil>?r / 8\<rceil> \<le> n"
        using Suc.prems unfolding nat_ceiling_share_step [OF pos] by simp
      then have "spill_loop_upto n ex ?r d ?data = Some (spill_loop ex ?r d ?data)"
        by (rule Suc.IH)
      moreover have "spill_loop_upto (Suc n) ex r cur data = spill_loop_upto n ex ?r d ?data"
        using pos Inr by (simp add: Let_def)
      ultimately show ?thesis
        unfolding spill_loop_step [OF pos Inr, of ex data] by simp
    qed
  qed
qed

subsection \<open>The distribution as a whole\<close>

lemma py_range_1: "py_range 1 = [0]"
  by (simp add: py_range_def)

lemma py_range_2: "py_range 2 = [0, 1]"
  by (simp add: py_range_def upto_rec1 [of 0])

lemma length_py_range: "length (py_range n) = nat n"
  by (simp add: py_range_def)

lemma set_py_range: "set (py_range n) = {0..n - 1}"
  by (simp add: py_range_def)

lemma py_range_valid:
  assumes "valid_date s" "valid_date e"
  shows "\<forall>off\<in>set (py_range (e - s + 1)). valid_date (s + off)"
  using assms unfolding set_py_range valid_date_def by auto

lemma distribute_Inr_iff:
  "distribute ex total_hours s e = Inr (r, data) \<longleftrightarrow>
   (\<exists>r1 prim. range_loop ex s (py_range (e - s + 1)) total_hours [] = Inr (r1, prim)
      \<and> spill_loop ex r1 e prim = Inr (r, data))"
  by (auto simp: distribute_def split: sum.splits)

lemma distribute_returns:
  assumes "valid_date s" "valid_date e" "s \<le> e" "0 < total_hours"
    and fits: "e + \<lceil>(total_hours - 8 * of_int (e - s + 1)) / 8\<rceil> \<le> date_max"
  shows "\<exists>data. distribute ex total_hours s e = Inr (0, data)"
proof -
  let ?offs = "py_range (e - s + 1)"
  let ?x = "total_hours - 8 * of_int (e - s + 1)"
  have len: "(of_nat (length ?offs) :: hours) = of_int (e - s + 1)"
    using \<open>s \<le> e\<close> by (simp add: length_py_range)
  obtain prim where prim:
    "range_loop ex s ?offs total_hours [] = Inr (max 0 ?x, prim)"
    using range_loop_remaining [OF py_range_valid [OF assms(1,2)], of ex total_hours "[]"]
      \<open>0 < total_hours\<close> unfolding len by auto
  have "e + \<lceil>max 0 ?x / 8\<rceil> \<le> date_max"
  proof (cases "0 \<le> ?x")
    case True
    then have "max 0 ?x = ?x" by simp
    with fits show ?thesis by simp
  next
    case False
    then have "max 0 ?x = 0" by simp
    with \<open>valid_date e\<close> show ?thesis by (simp add: valid_date_def)
  qed
  from spill_loop_returns [OF \<open>valid_date e\<close> this, of ex prim]
  obtain data where "spill_loop ex (max 0 ?x) e prim = Inr (min (max 0 ?x) 0, data)" ..
  moreover have "min (max 0 ?x) 0 = 0" by simp
  ultimately have "distribute ex total_hours s e = Inr (0, data)"
    using prim by (simp add: distribute_def)
  then show ?thesis ..
qed

lemma distribute_raises:
  assumes "valid_date s" "valid_date e" "s \<le> e" "0 < total_hours"
    and far: "date_max < e + \<lceil>(total_hours - 8 * of_int (e - s + 1)) / 8\<rceil>"
  shows "distribute ex total_hours s e = Inl OverflowError"
proof -
  let ?offs = "py_range (e - s + 1)"
  let ?x = "total_hours - 8 * of_int (e - s + 1)"
  have len: "(of_nat (length ?offs) :: hours) = of_int (e - s + 1)"
    using \<open>s \<le> e\<close> by (simp add: length_py_range)
  obtain prim where prim:
    "range_loop ex s ?offs total_hours [] = Inr (max 0 ?x, prim)"
    using range_loop_remaining [OF py_range_valid [OF assms(1,2)], of ex total_hours "[]"]
      \<open>0 < total_hours\<close> unfolding len by auto
  have "0 < \<lceil>?x / 8\<rceil>"
    using far \<open>valid_date e\<close> unfolding valid_date_def by linarith
  then have pos: "0 < ?x"
    by (simp add: zero_less_divide_iff)
  then have m: "max 0 ?x = ?x" by simp
  have "spill_loop ex ?x e prim = Inl OverflowError"
    using pos far by (rule spill_loop_raises)
  then show ?thesis
    using prim unfolding m by (simp add: distribute_def)
qed

lemma distribute_sum:
  assumes "\<And>d. \<not> ex d"
    and "distribute ex total_hours s e = Inr (r, data)"
  shows "r + sum_list (map hours data) = total_hours"
proof -
  from assms(2) obtain r1 prim where
    1: "range_loop ex s (py_range (e - s + 1)) total_hours [] = Inr (r1, prim)" and
    2: "spill_loop ex r1 e prim = Inr (r, data)"
    unfolding distribute_Inr_iff by blast
  from range_loop_sum [OF assms(1) 1] spill_loop_sum [OF assms(1) 2]
  show ?thesis by simp
qed

lemma spill_loop_prefix:
  "spill_loop ex r cur data = Inr (r', data') \<Longrightarrow> \<exists>new. data' = data @ new"
proof (induction ex r cur data rule: spill_loop.induct)
  case (1 ex r cur data)
  show ?case
  proof (cases "0 < r")
    case False
    with "1.prems" show ?thesis by (simp add: spill_loop_stop)
  next
    case pos: True
    then obtain d where d: "date_add cur 1 = Inr d"
      using "1.prems"(1) by (cases "date_add cur 1") (simp_all add: spill_loop_overflow)
    let ?a = "\<lparr>date = d, hours = min r max_hours_per_day\<rparr>"
    let ?data = "if \<not> ex d then data @ [?a] else data"
    have run: "spill_loop ex (r - min r max_hours_per_day) d ?data = Inr (r', data')"
      using "1.prems"(1) unfolding spill_loop_step [OF pos d, of ex data] .
    from "1.IH" [OF pos d refl refl run] obtain new where "data' = ?data @ new" ..
    then show ?thesis by (cases "ex d") simp_all
  qed
qed

lemma range_dates_sorted:
  "sorted_wrt (<) (filter P (map ((+) s) (take k (py_range n))))"
proof -
  have "sorted_wrt (<) (take k (py_range n))"
    unfolding py_range_def by (rule sorted_wrt_take) simp
  then have "sorted_wrt (<) (map ((+) s) (take k (py_range n)))"
    by (simp add: sorted_wrt_map)
  then show ?thesis
    by (rule sorted_wrt_filter)
qed

lemma range_dates_within:
  assumes "d \<in> set (filter P (map ((+) s) (take k (py_range (e - s + 1)))))"
  shows "s \<le> d \<and> d \<le> e"
proof -
  from assms obtain off where "off \<in> set (take k (py_range (e - s + 1)))" and d: "d = s + off"
    by auto
  then have "off \<in> set (py_range (e - s + 1))"
    by (blast dest: in_set_takeD)
  then have "0 \<le> off \<and> off \<le> e - s"
    by (simp add: set_py_range)
  with d show ?thesis by simp
qed

subsection \<open>The loop over the slots\<close>

lemma create_timesheets_appends:
  "create_timesheets s data e created = (e', created') \<Longrightarrow>
   \<exists>new. analytic_lines e' = analytic_lines e @ new \<and> created' = created @ map ts_id new
     \<and> planning_slots e' = planning_slots e"
proof (induction data arbitrary: e created)
  case Nil
  then show ?case by simp
next
  case (Cons a rest)
  let ?t = "\<lparr>ts_id = next_id e, ts_employee_id = employee_id s, ts_project_id = project_id s,
     ts_partner_id = resource_id s, ts_date = date a, ts_unit_amount = hours a,
     ts_name = (slot_label_of s, date a), ts_slot_id = slot_id s\<rparr>"
  let ?e = "e\<lparr>analytic_lines := analytic_lines e @ [?t], next_id := next_id e + 1\<rparr>"
  from Cons.prems have "create_timesheets s rest ?e (created @ [ts_id ?t]) = (e', created')"
    by (simp add: Let_def)
  from Cons.IH [OF this] obtain new where
    "analytic_lines e' = analytic_lines ?e @ new" "created' = (created @ [ts_id ?t]) @ map ts_id new"
    "planning_slots e' = planning_slots ?e" by blast
  then have "analytic_lines e' = analytic_lines e @ (?t # new) \<and>
     created' = created @ map ts_id (?t # new) \<and> planning_slots e' = planning_slots e"
    by simp
  then show ?case ..
qed

lemma fits_returns:
  assumes "valid_date s" "valid_date e" "s \<le> e"
    and "e + \<lceil>(total_hours - 8 * of_int (e - s + 1)) / 8\<rceil> \<le> date_max"
    and "0 < total_hours"
  shows "\<exists>res. distribute ex total_hours s e = Inr res"
  using distribute_returns [OF assms(1,2,3,5,4), of ex] by blast

lemma slots_loop_returns:
  assumes "valid_date s" "valid_date e" "s \<le> e"
  shows "\<forall>sl\<in>set slots. e + \<lceil>(slot_total_hours sid sl - 8 * of_int (e - s + 1)) / 8\<rceil> \<le> date_max \<Longrightarrow>
    \<exists>env' new. slots_loop sid s e slots env created = Inr (env', created @ map ts_id new)
      \<and> analytic_lines env' = analytic_lines env @ new"
proof (induction slots arbitrary: env created)
  case Nil
  have "slots_loop sid s e [] env created = Inr (env, created @ map ts_id [])
      \<and> analytic_lines env = analytic_lines env @ []"
    by simp
  then show ?case by blast
next
  case (Cons sl slots)
  let ?total = "slot_total_hours sid sl"
  from Cons.prems have rest:
    "\<forall>sl\<in>set slots. e + \<lceil>(slot_total_hours sid sl - 8 * of_int (e - s + 1)) / 8\<rceil> \<le> date_max"
    and fits: "e + \<lceil>(?total - 8 * of_int (e - s + 1)) / 8\<rceil> \<le> date_max"
    by simp_all
  show ?case
  proof (cases "?total \<le> 0")
    case True
    then have "slots_loop sid s e (sl # slots) env created = slots_loop sid s e slots env created"
      by simp
    with Cons.IH [OF rest, of env created] show ?thesis by simp
  next
    case False
    then have pos: "0 < ?total" by simp
    let ?ex = "\<lambda>d. existing_timesheet env sl d \<noteq> []"
    from fits_returns [OF assms fits pos, of ?ex] obtain r data where
      dist: "distribute ?ex ?total s e = Inr (r, data)"
      by (metis surj_pair)
    obtain env1 created1 where cr: "create_timesheets sl data env created = (env1, created1)"
      by (cases "create_timesheets sl data env created")
    from create_timesheets_appends [OF cr] obtain new1 where
      n1: "analytic_lines env1 = analytic_lines env @ new1" "created1 = created @ map ts_id new1"
      by blast
    from Cons.IH [OF rest, of env1 created1] obtain env' new where
      n2: "slots_loop sid s e slots env1 created1 = Inr (env', created1 @ map ts_id new)"
        "analytic_lines env' = analytic_lines env1 @ new"
      by blast
    have "slots_loop sid s e (sl # slots) env created = slots_loop sid s e slots env1 created1"
      using False dist cr by (simp add: Let_def)
    with n1 n2 have "slots_loop sid s e (sl # slots) env created =
        Inr (env', created @ map ts_id (new1 @ new))
      \<and> analytic_lines env' = analytic_lines env @ (new1 @ new)"
      by simp
    then show ?thesis by blast
  qed
qed

lemmas run_defs = create_timesheet_from_effective_hours_def search_slots_def truthy_def
  slot_total_hours_def existing_timesheet_def slot_label_of_def distribute_def
  error_response_def success_response_def date_add_def valid_date_def date_max_def
  max_hours_per_day_def range_loop_step range_loop_stop spill_loop.simps Let_def

lemma py_range_4: "py_range 4 = [0, 1, 2, 3]"
  by (simp add: py_range_def upto_rec1 [of 0] upto_rec1 [of 1])

section \<open>The claims\<close>

text \<open>
  Claim C1, as amended. For \<open>total_hours > 0\<close>, a range of dates with
  \<open>start_date \<le> end_date\<close> and a lookup that finds no timesheet on any date: when the
  last day that the hours need after the range, \<open>end_date + \<lceil>(total_hours - 8 * days) / 8\<rceil>\<close>
  with \<open>days\<close> the number of days of the range, is no later than 9999-12-31, the
  distribution returns with no hours left, and the hours of its allocations, those after
  \<open>end_date\<close> included, add up to \<open>total_hours\<close> exactly.
\<close>

theorem distribute_sums_to_total:
  assumes "0 < total_hours"
    and "valid_date start_date" and "valid_date end_date" and "start_date \<le> end_date"
    and "\<forall>d. \<not> ex d"
    and "end_date + \<lceil>(total_hours - 8 * of_int (end_date - start_date + 1)) / 8\<rceil> \<le> date_max"
  shows "\<exists>data. distribute ex total_hours start_date end_date = Inr (0, data)
           \<and> sum_list (map hours data) = total_hours"
proof -
  obtain data where ret: "distribute ex total_hours start_date end_date = Inr (0, data)"
    using distribute_returns [OF assms(2,3,4,1,6)] ..
  have "0 + sum_list (map hours data) = total_hours"
    using assms(5) by (intro distribute_sum [OF _ ret]) simp
  with ret show ?thesis by simp
qed

theorem distribute_sums_to_total_witness:
  "(0 :: hours) < 69 / 2 \<and> valid_date 739387 \<and> valid_date 739390 \<and> (739387 :: date) \<le> 739390
   \<and> (\<forall>d. \<not> no_existing d)
   \<and> 739390 + \<lceil>((69 / 2 :: hours) - 8 * of_int (739390 - 739387 + 1)) / 8\<rceil> \<le> date_max
   \<and> (\<exists>data. distribute no_existing (69 / 2) 739387 739390 = Inr (0, data)
         \<and> sum_list (map hours data) = 69 / 2)"
  using distribute_sums_to_total [of "69 / 2" 739387 739390 no_existing]
  by (simp add: valid_date_def date_max_def no_existing_def)

text \<open>
  Claim C1 as stated fails where the days after the range leave the calendar: 16 hours on
  the one-day range 9999-12-31 put 8 hours on that day, and the step to the next day raises
  \<^verbatim>\<open>OverflowError\<close>, so no allocations are returned.
\<close>

theorem distribute_past_last_date:
  "(0 :: hours) < 16 \<and> valid_date 3652059 \<and> (3652059 :: date) \<le> 3652059
   \<and> distribute no_existing 16 3652059 3652059 = Inl OverflowError"
  by (simp add: valid_date_def date_max_def distribute_def py_range_def range_loop_step
      range_loop.simps(1) spill_loop.simps date_add_def max_hours_per_day_def no_existing_def)

text \<open>
  Claim C2. When a timesheet exists on the date \<open>d\<close> that a loop processes, the loop
  goes on with the same collected data and with the remaining hours reduced by the full
  share \<open>min remaining 8\<close>, in the range and after it. For the distribution as a whole:
  its result is the result for a lookup that finds nothing, with the allocations on existing
  dates removed and the same hours left. In particular 8 hours on the one-day range \<open>D\<close>
  with a timesheet on \<open>D\<close> give no allocation and leave 0 hours.
\<close>

theorem existing_date_consumes_share:
  "(0 < r \<and> date_add s off = Inr d \<and> ex d \<longrightarrow>
      range_loop ex s (off # offs) r data = range_loop ex s offs (r - min r 8) data)
   \<and> (0 < r \<and> date_add cur 1 = Inr d \<and> ex d \<longrightarrow>
      spill_loop ex r cur data = spill_loop ex (r - min r 8) d data)
   \<and> distribute ex total_hours start_date end_date =
     (case distribute (\<lambda>d. False) total_hours start_date end_date of
        Inl err \<Rightarrow> Inl err
      | Inr (remaining, allocs) \<Rightarrow> Inr (remaining, filter (\<lambda>a. \<not> ex (date a)) allocs))
   \<and> (valid_date D \<and> ex D \<longrightarrow> distribute ex 8 D D = Inr (0, []))"
proof (intro conjI impI)
  assume "0 < r \<and> date_add s off = Inr d \<and> ex d"
  then show "range_loop ex s (off # offs) r data = range_loop ex s offs (r - min r 8) data"
    by (simp add: range_loop_step max_hours_per_day_def)
next
  assume "0 < r \<and> date_add cur 1 = Inr d \<and> ex d"
  then show "spill_loop ex r cur data = spill_loop ex (r - min r 8) d data"
    by (simp add: spill_loop_step max_hours_per_day_def)
next
  show "distribute ex total_hours start_date end_date =
     (case distribute (\<lambda>d. False) total_hours start_date end_date of
        Inl err \<Rightarrow> Inl err
      | Inr (remaining, allocs) \<Rightarrow> Inr (remaining, filter (\<lambda>a. \<not> ex (date a)) allocs))"
    by (rule distribute_filter)
next
  assume a: "valid_date D \<and> ex D"
  then have d: "date_add D 0 = Inr D"
    by (simp add: date_add_def)
  have "range_loop ex D [0] 8 [] = Inr (0, [])"
    using a by (simp add: range_loop_step [OF _ d] max_hours_per_day_def)
  then show "distribute ex 8 D D = Inr (0, [])"
    by (simp add: distribute_def py_range_def spill_loop_stop)
qed

theorem existing_date_consumes_share_witness:
  "(0 :: hours) < 20 \<and> date_add 739387 1 = Inr 739388 \<and> existing_on 739388 739388
   \<and> range_loop (existing_on 739388) 739387 [1] 20 [] =
       range_loop (existing_on 739388) 739387 [] (20 - min 20 8) []
   \<and> spill_loop (existing_on 739388) 20 739387 [] =
       spill_loop (existing_on 739388) (20 - min 20 8) 739388 []
   \<and> valid_date 739387 \<and> existing_on 739387 739387
   \<and> distribute (existing_on 739387) 8 739387 739387 = Inr (0, [])
   \<and> distribute (existing_on 739388) 20 739387 739388 =
       Inr (0, [\<lparr>date = 739387, hours = 8\<rparr>, \<lparr>date = 739389, hours = 4\<rparr>])"
proof -
  have v: "valid_date 739387"
    by (simp add: valid_date_def date_max_def)
  have d: "date_add 739387 1 = Inr 739388"
    by (simp add: date_add_def valid_date_def date_max_def)
  have e: "existing_on 739387 739387" "existing_on 739388 739388"
    by (simp_all add: existing_on_def)
  have n: "distribute (\<lambda>d. False) 20 739387 739388 =
       Inr (0, [\<lparr>date = 739387, hours = 8\<rparr>, \<lparr>date = 739388, hours = 8\<rparr>,
                \<lparr>date = 739389, hours = 4\<rparr>])"
    by (simp add: valid_date_def date_max_def distribute_def py_range_2 range_loop_step
      spill_loop.simps date_add_def max_hours_per_day_def)
  note at_16 = existing_date_consumes_share [where ex = "existing_on 739387" and D = 739387
      and total_hours = 8 and start_date = 739387 and end_date = 739387]
  note at_17 = existing_date_consumes_share [where ex = "existing_on 739388" and r = 20
      and s = 739387 and off = 1 and d = 739388 and offs = "[]" and data = "[]"
      and cur = 739387 and total_hours = 20 and start_date = 739387 and end_date = 739388]
  have 1: "distribute (existing_on 739387) 8 739387 739387 = Inr (0, [])"
    using at_16 v e by blast
  have 2: "range_loop (existing_on 739388) 739387 [1] 20 [] =
       range_loop (existing_on 739388) 739387 [] (20 - min 20 8) []"
    using at_17 d e by simp
  have 3: "spill_loop (existing_on 739388) 20 739387 [] =
       spill_loop (existing_on 739388) (20 - min 20 8) 739388 []"
    using at_17 d e by simp
  have "distribute (existing_on 739388) 20 739387 739388 =
      (case distribute (\<lambda>d. False) 20 739387 739388 of
        Inl err \<Rightarrow> Inl err
      | Inr (remaining, allocs) \<Rightarrow>
          Inr (remaining, filter (\<lambda>a. \<not> existing_on 739388 (date a)) allocs))"
    using at_17 by blast
  then have 4: "distribute (existing_on 739388) 20 739387 739388 =
       Inr (0, [\<lparr>date = 739387, hours = 8\<rparr>, \<lparr>date = 739389, hours = 4\<rparr>])"
    unfolding n by (simp add: existing_on_def)
  from v d e 1 2 3 4 show ?thesis by simp
qed

text \<open>
  Claim C3. Every allocation that the distribution returns has more than 0 and at most 8
  hours, for every total, every range and every lookup.
\<close>

theorem allocation_hours_bounded:
  assumes "distribute ex total_hours start_date end_date = Inr (remaining, data)"
    and "a \<in> set data"
  shows "0 < hours a \<and> hours a \<le> 8"
proof -
  from assms(1) obtain r1 prim where
    1: "range_loop ex start_date (py_range (end_date - start_date + 1)) total_hours [] = Inr (r1, prim)" and
    2: "spill_loop ex r1 end_date prim = Inr (remaining, data)"
    unfolding distribute_Inr_iff by blast
  have "list_all share_ok prim"
    using range_loop_bounds [OF 1] by simp
  then have "list_all share_ok data"
    by (rule spill_loop_bounds [OF 2])
  with assms(2) have "share_ok a"
    by (simp add: list_all_iff)
  then show ?thesis
    by (simp add: share_ok_def max_hours_per_day_def)
qed

theorem allocation_hours_bounded_witness:
  "distribute (existing_on 739388) (41 / 2) 739387 739388 =
       Inr (0, [\<lparr>date = 739387, hours = 8\<rparr>, \<lparr>date = 739389, hours = 9 / 2\<rparr>])
   \<and> \<lparr>date = 739389, hours = 9 / 2\<rparr> \<in>
       set [\<lparr>date = 739387, hours = 8\<rparr>, \<lparr>date = 739389, hours = 9 / 2\<rparr>]
   \<and> 0 < hours \<lparr>date = 739389, hours = 9 / 2\<rparr> \<and> hours \<lparr>date = 739389, hours = 9 / 2\<rparr> \<le> 8"
proof -
  have run: "distribute (existing_on 739388) (41 / 2) 739387 739388 =
       Inr (0, [\<lparr>date = 739387, hours = 8\<rparr>, \<lparr>date = 739389, hours = 9 / 2\<rparr>])"
    by (simp add: valid_date_def date_max_def distribute_def py_range_2 range_loop_step
      spill_loop.simps date_add_def max_hours_per_day_def existing_on_def)
  have mem: "\<lparr>date = 739389, hours = 9 / 2\<rparr> \<in>
       set [\<lparr>date = 739387, hours = 8\<rparr>, \<lparr>date = 739389, hours = 9 / 2\<rparr>]"
    by simp
  from allocation_hours_bounded [OF run mem] run mem show ?thesis
    by blast
qed

text \<open>
  Claim C4, as amended. For a date \<open>D\<close> no later than 9999-12-29, so that \<open>D + 2\<close> is
  a date, and a lookup that finds no timesheet, 20 hours over the range from \<open>D\<close> to
  \<open>D + 1\<close> give exactly 8 hours on \<open>D\<close>, 8 hours on \<open>D + 1\<close> and 4 hours on
  \<open>D + 2\<close>, in this order, and leave 0 hours.
\<close>

theorem distribute_spills_one_day:
  assumes "valid_date D" and "valid_date (D + 2)" and "\<forall>d. \<not> ex d"
  shows "distribute ex 20 D (D + 1) =
    Inr (0, [\<lparr>date = D, hours = 8\<rparr>, \<lparr>date = D + 1, hours = 8\<rparr>, \<lparr>date = D + 2, hours = 4\<rparr>])"
proof -
  have v1: "valid_date (D + 1)"
    using assms(1,2) unfolding valid_date_def by linarith
  have d0: "date_add D 0 = Inr D" and d1: "date_add D 1 = Inr (D + 1)"
    using assms(1) v1 by (simp_all add: date_add_def)
  have d2: "date_add (D + 1) 1 = Inr (D + 2)"
    using assms(2) by (simp add: date_add_def add.assoc)
  have "range_loop ex D [0, 1] 20 [] =
      range_loop ex D [1] 12 [\<lparr>date = D, hours = 8\<rparr>]"
    using assms(3) by (simp add: range_loop_step [OF _ d0] max_hours_per_day_def)
  also have "\<dots> = range_loop ex D [] 4 [\<lparr>date = D, hours = 8\<rparr>, \<lparr>date = D + 1, hours = 8\<rparr>]"
    using assms(3) by (simp add: range_loop_step [OF _ d1] max_hours_per_day_def)
  finally have primary: "range_loop ex D (py_range (D + 1 - D + 1)) 20 [] =
      Inr (4, [\<lparr>date = D, hours = 8\<rparr>, \<lparr>date = D + 1, hours = 8\<rparr>])"
    by (simp add: py_range_2)
  have "spill_loop ex 4 (D + 1) [\<lparr>date = D, hours = 8\<rparr>, \<lparr>date = D + 1, hours = 8\<rparr>] =
      spill_loop ex 0 (D + 2)
        [\<lparr>date = D, hours = 8\<rparr>, \<lparr>date = D + 1, hours = 8\<rparr>, \<lparr>date = D + 2, hours = 4\<rparr>]"
    using assms(3) by (simp add: spill_loop_step [OF _ d2] max_hours_per_day_def)
  then show ?thesis
    using primary by (simp add: distribute_def spill_loop_stop)
qed

theorem distribute_spills_one_day_witness:
  "valid_date 739387 \<and> valid_date (739387 + 2) \<and> (\<forall>d. \<not> no_existing d)
   \<and> distribute no_existing 20 739387 (739387 + 1) =
    Inr (0, [\<lparr>date = 739387, hours = 8\<rparr>, \<lparr>date = 739387 + 1, hours = 8\<rparr>,
             \<lparr>date = 739387 + 2, hours = 4\<rparr>])"
  using distribute_spills_one_day [of 739387 no_existing]
  by (simp add: valid_date_def date_max_def no_existing_def)

text \<open>
  Claim C4 as stated fails for the last range of the calendar: with \<open>D\<close> = 9999-12-30 the
  range from \<open>D\<close> to \<open>D + 1\<close> = 9999-12-31 is a range of dates and takes 8 hours on
  each day, and the step to the day after it, for the 4 hours left, raises
  \<^verbatim>\<open>OverflowError\<close>: no allocation is returned.
\<close>

theorem distribute_spill_past_last_date:
  "valid_date 3652058 \<and> valid_date (3652058 + 1) \<and> (\<forall>d. \<not> no_existing d)
   \<and> range_loop no_existing 3652058 (py_range (3652058 + 1 - 3652058 + 1)) 20 [] =
       Inr (4, [\<lparr>date = 3652058, hours = 8\<rparr>, \<lparr>date = 3652058 + 1, hours = 8\<rparr>])
   \<and> distribute no_existing 20 3652058 (3652058 + 1) = Inl OverflowError"
  by (simp add: valid_date_def date_max_def distribute_def py_range_2 range_loop_step
      range_loop.simps(1) spill_loop.simps date_add_def max_hours_per_day_def no_existing_def)

text \<open>
  Claim C5, as amended. The allocations that the distribution returns are those of the loop
  over the range, \<open>prim\<close>, followed by those of the loop after it, \<open>spilled\<close>. Their
  dates are non-decreasing; the dates of \<open>prim\<close> lie between \<open>start_date\<close> and
  \<open>end_date\<close>; the dates of \<open>spilled\<close> are after \<open>end_date\<close>: they are the days among
  the consecutive days \<open>end_date + 1, \<dots>, end_date + \<lceil>r1 / 8\<rceil>\<close> on which no timesheet
  exists, where \<open>r1\<close> are the hours left after the range, and they are all of these days
  when the lookup finds no timesheet.
\<close>

theorem distribute_dates:
  assumes "distribute ex total_hours start_date end_date = Inr (remaining, data)"
  shows "\<exists>r1 prim spilled.
      range_loop ex start_date (py_range (end_date - start_date + 1)) total_hours [] =
        Inr (r1, prim)
    \<and> data = prim @ spilled
    \<and> sorted (map date data)
    \<and> (\<forall>a\<in>set prim. start_date \<le> date a \<and> date a \<le> end_date)
    \<and> (\<forall>a\<in>set spilled. end_date < date a)
    \<and> map date spilled = filter (\<lambda>d. \<not> ex d) [end_date + 1..end_date + \<lceil>r1 / 8\<rceil>]
    \<and> ((\<forall>d. \<not> ex d) \<longrightarrow> map date spilled = [end_date + 1..end_date + \<lceil>r1 / 8\<rceil>])"
proof -
  let ?n = "end_date - start_date + 1"
  from assms obtain r1 prim where
    1: "range_loop ex start_date (py_range ?n) total_hours [] = Inr (r1, prim)" and
    2: "spill_loop ex r1 end_date prim = Inr (remaining, data)"
    unfolding distribute_Inr_iff by blast
  from spill_loop_prefix [OF 2] obtain spilled where data: "data = prim @ spilled" ..
  let ?P = "\<lambda>d. \<not> ex d"
  have pd: "map date prim =
      filter ?P (map ((+) start_date) (take (nat \<lceil>total_hours / 8\<rceil>) (py_range ?n)))"
    using range_loop_dates [OF 1] by simp
  have sd: "map date spilled = filter ?P [end_date + 1..end_date + \<lceil>r1 / 8\<rceil>]"
    using spill_loop_dates [OF 2] unfolding data by simp
  have within: "\<forall>a\<in>set prim. start_date \<le> date a \<and> date a \<le> end_date"
  proof
    fix a assume "a \<in> set prim"
    then have "date a \<in> set (map date prim)" by simp
    then show "start_date \<le> date a \<and> date a \<le> end_date"
      unfolding pd by (rule range_dates_within)
  qed
  have after: "\<forall>a\<in>set spilled. end_date < date a"
  proof
    fix a assume "a \<in> set spilled"
    then have "date a \<in> set (map date spilled)" by simp
    then show "end_date < date a"
      unfolding sd by simp
  qed
  have "sorted_wrt (<) (map date prim)"
    unfolding pd by (rule range_dates_sorted)
  moreover have "sorted_wrt (<) (map date spilled)"
    unfolding sd by (rule sorted_wrt_filter) simp
  moreover have "\<forall>x\<in>set (map date prim). \<forall>y\<in>set (map date spilled). x < y"
    using within after by fastforce
  ultimately have "sorted_wrt (<) (map date data)"
    unfolding data by (simp add: sorted_wrt_append)
  then have "sorted (map date data)"
    by (simp add: strict_sorted_iff)
  moreover have "(\<forall>d. \<not> ex d) \<longrightarrow> map date spilled = [end_date + 1..end_date + \<lceil>r1 / 8\<rceil>]"
    unfolding sd by simp
  ultimately show ?thesis
    using 1 data within after sd by blast
qed

theorem distribute_dates_witness:
  "distribute (existing_on 739389) 30 739387 739388 =
     Inr (0, [\<lparr>date = 739387, hours = 8\<rparr>, \<lparr>date = 739388, hours = 8\<rparr>,
              \<lparr>date = 739390, hours = 6\<rparr>])
   \<and> (\<exists>r1 prim spilled.
      range_loop (existing_on 739389) 739387 (py_range (739388 - 739387 + 1)) 30 [] =
        Inr (r1, prim)
    \<and> [\<lparr>date = 739387, hours = 8\<rparr>, \<lparr>date = 739388, hours = 8\<rparr>,
        \<lparr>date = 739390, hours = 6\<rparr>] = prim @ spilled
    \<and> sorted (map date [\<lparr>date = 739387, hours = 8\<rparr>, \<lparr>date = 739388, hours = 8\<rparr>,
        \<lparr>date = 739390, hours = 6\<rparr>])
    \<and> (\<forall>a\<in>set prim. 739387 \<le> date a \<and> date a \<le> 739388)
    \<and> (\<forall>a\<in>set spilled. 739388 < date a)
    \<and> map date spilled =
        filter (\<lambda>d. \<not> existing_on 739389 d) [739388 + 1..739388 + \<lceil>r1 / 8\<rceil>])
   \<and> (\<forall>d. \<not> no_existing d)
   \<and> distribute no_existing 30 739387 739388 =
     Inr (0, [\<lparr>date = 739387, hours = 8\<rparr>, \<lparr>date = 739388, hours = 8\<rparr>,
              \<lparr>date = 739389, hours = 8\<rparr>, \<lparr>date = 739390, hours = 6\<rparr>])
   \<and> (\<exists>r1 prim spilled.
      range_loop no_existing 739387 (py_range (739388 - 739387 + 1)) 30 [] = Inr (r1, prim)
    \<and> [\<lparr>date = 739387, hours = 8\<rparr>, \<lparr>date = 739388, hours = 8\<rparr>,
        \<lparr>date = 739389, hours = 8\<rparr>, \<lparr>date = 739390, hours = 6\<rparr>] = prim @ spilled
    \<and> map date spilled = [739388 + 1..739388 + \<lceil>r1 / 8\<rceil>])"
proof -
  have run: "distribute (existing_on 739389) 30 739387 739388 =
     Inr (0, [\<lparr>date = 739387, hours = 8\<rparr>, \<lparr>date = 739388, hours = 8\<rparr>,
              \<lparr>date = 739390, hours = 6\<rparr>])"
    by (simp add: valid_date_def date_max_def distribute_def py_range_2 range_loop_step
      spill_loop.simps date_add_def max_hours_per_day_def existing_on_def)
  have none: "\<forall>d. \<not> no_existing d"
    by (simp add: no_existing_def)
  have run': "distribute no_existing 30 739387 739388 =
     Inr (0, [\<lparr>date = 739387, hours = 8\<rparr>, \<lparr>date = 739388, hours = 8\<rparr>,
              \<lparr>date = 739389, hours = 8\<rparr>, \<lparr>date = 739390, hours = 6\<rparr>])"
    by (simp add: valid_date_def date_max_def distribute_def py_range_2 range_loop_step
      spill_loop.simps date_add_def max_hours_per_day_def no_existing_def)
  from distribute_dates [OF run] have a: "\<exists>r1 prim spilled.
      range_loop (existing_on 739389) 739387 (py_range (739388 - 739387 + 1)) 30 [] =
        Inr (r1, prim)
    \<and> [\<lparr>date = 739387, hours = 8\<rparr>, \<lparr>date = 739388, hours = 8\<rparr>,
        \<lparr>date = 739390, hours = 6\<rparr>] = prim @ spilled
    \<and> sorted (map date [\<lparr>date = 739387, hours = 8\<rparr>, \<lparr>date = 739388, hours = 8\<rparr>,
        \<lparr>date = 739390, hours = 6\<rparr>])
    \<and> (\<forall>a\<in>set prim. 739387 \<le> date a \<and> date a \<le> 739388)
    \<and> (\<forall>a\<in>set spilled. 739388 < date a)
    \<and> map date spilled =
        filter (\<lambda>d. \<not> existing_on 739389 d) [739388 + 1..739388 + \<lceil>r1 / 8\<rceil>]"
    by blast
  from distribute_dates [OF run'] none have b: "\<exists>r1 prim spilled.
      range_loop no_existing 739387 (py_range (739388 - 739387 + 1)) 30 [] = Inr (r1, prim)
    \<and> [\<lparr>date = 739387, hours = 8\<rparr>, \<lparr>date = 739388, hours = 8\<rparr>,
        \<lparr>date = 739389, hours = 8\<rparr>, \<lparr>date = 739390, hours = 6\<rparr>] = prim @ spilled
    \<and> map date spilled = [739388 + 1..739388 + \<lceil>r1 / 8\<rceil>]"
    by blast
  from run a none run' b show ?thesis
    by blast
qed

text \<open>
  Claim C5 as stated fails when a timesheet exists on a day after the range: with 24 hours
  on the one-day range 2025-05-16 and a timesheet on 2025-05-17, the range takes 8 hours,
  2025-05-17 consumes 8 hours without an allocation, and the only allocation after the range
  is on 2025-05-18, which is not \<open>end_date + 1\<close>.
\<close>

theorem spill_skips_existing_day:
  "range_loop (existing_on 739388) 739387 (py_range (739387 - 739387 + 1)) 24 [] =
     Inr (16, [\<lparr>date = 739387, hours = 8\<rparr>])
   \<and> distribute (existing_on 739388) 24 739387 739387 =
     Inr (0, [\<lparr>date = 739387, hours = 8\<rparr>, \<lparr>date = 739389, hours = 8\<rparr>])
   \<and> date \<lparr>date = 739389, hours = 8\<rparr> \<noteq> 739387 + 1"
  by (simp add: valid_date_def date_max_def distribute_def py_range_1 range_loop_step
      spill_loop.simps date_add_def max_hours_per_day_def existing_on_def)

text \<open>
  Claim C6. When the parser rejects the start or the end string, or the start date is after
  the end date, the operation returns the dictionary with status \<^verbatim>\<open>error\<close> and the
  message of the case, and raises nothing. The store is returned as it was and the result
  does not depend on the slots or timesheets in it: no slot is looked up and no timesheet
  is created.
\<close>

theorem invalid_dates_rejected:
  assumes "strptime start_date = None \<or> strptime end_date = None
    \<or> (\<exists>s e. strptime start_date = Some s \<and> strptime end_date = Some e \<and> e < s)"
  shows "create_timesheet_from_effective_hours strptime env partner_id start_date end_date
      specific_slot_id specific_hours =
    Inr (\<lparr>status = ''error'',
          message = (if strptime start_date = None \<or> strptime end_date = None
                     then ''Invalid date format. Use YYYY-MM-DD.''
                     else ''Start date cannot be after end date.''),
          timesheet_ids = None\<rparr>, env)"
  using assms
  by (auto simp: create_timesheet_from_effective_hours_def error_response_def
      split: option.splits)

theorem invalid_dates_rejected_witness:
  "sample_strptime ''16/05/2025'' = None
   \<and> create_timesheet_from_effective_hours sample_strptime sample_env 3 ''16/05/2025''
        ''2025-05-19'' None None =
      Inr (\<lparr>status = ''error'', message = ''Invalid date format. Use YYYY-MM-DD.'',
            timesheet_ids = None\<rparr>, sample_env)
   \<and> sample_strptime ''2025-05-19'' = Some 739390 \<and> sample_strptime ''2025-05-16'' = Some 739387
   \<and> (739387 :: date) < 739390
   \<and> create_timesheet_from_effective_hours sample_strptime sample_env 3 ''2025-05-19''
        ''2025-05-16'' None None =
      Inr (\<lparr>status = ''error'', message = ''Start date cannot be after end date.'',
            timesheet_ids = None\<rparr>, sample_env)"
proof -
  have p: "sample_strptime ''16/05/2025'' = None" "sample_strptime ''2025-05-19'' = Some 739390"
    "sample_strptime ''2025-05-16'' = Some 739387"
    by (simp_all add: sample_strptime_def)
  from invalid_dates_rejected [of sample_strptime "''16/05/2025''" "''2025-05-19''" sample_env 3 None None]
    invalid_dates_rejected [of sample_strptime "''2025-05-19''" "''2025-05-16''" sample_env 3 None None]
    p
  show ?thesis by simp
qed

text \<open>
  Claim C7. When the search finds no slot of the customer, the operation returns a
  dictionary with status \<^verbatim>\<open>error\<close> and a message, and the store as it was; for parsed
  dates in order the message is the one of source line 42.
\<close>

theorem no_slots_found_error:
  assumes "search_slots env partner_id specific_slot_id = []"
  shows "(\<exists>msg. create_timesheet_from_effective_hours strptime env partner_id start_date
            end_date specific_slot_id specific_hours = Inr (error_response msg, env))
    \<and> (\<forall>s e. strptime start_date = Some s \<and> strptime end_date = Some e \<and> s \<le> e \<longrightarrow>
          create_timesheet_from_effective_hours strptime env partner_id start_date end_date
            specific_slot_id specific_hours =
          Inr (\<lparr>status = ''error'',
                message = ''No planning slots found with effective or allocated hours for this customer.'',
                timesheet_ids = None\<rparr>, env))"
  using assms
  by (auto simp: create_timesheet_from_effective_hours_def error_response_def
      split: option.splits)

theorem no_slots_found_error_witness:
  "search_slots sample_env 4 None = []
   \<and> sample_strptime ''2025-05-16'' = Some 739387 \<and> sample_strptime ''2025-05-19'' = Some 739390
   \<and> (739387 :: date) \<le> 739390
   \<and> create_timesheet_from_effective_hours sample_strptime sample_env 4 ''2025-05-16''
        ''2025-05-19'' None None =
      Inr (\<lparr>status = ''error'',
            message = ''No planning slots found with effective or allocated hours for this customer.'',
            timesheet_ids = None\<rparr>, sample_env)"
proof -
  have none: "search_slots sample_env 4 None = []"
    by (simp add: search_slots_def sample_env_def sample_slot_def)
  have p: "sample_strptime ''2025-05-16'' = Some 739387" "sample_strptime ''2025-05-19'' = Some 739390"
    by (simp_all add: sample_strptime_def)
  from no_slots_found_error [OF none, of sample_strptime "''2025-05-16''" "''2025-05-19''" None]
    none p
  show ?thesis by simp
qed

text \<open>
  Claim C8, as amended. When both strings parse to dates in order, the search finds at least
  one slot, and for every slot found the last day that its hours need after the range,
  \<open>end_date + \<lceil>(hours - 8 * days) / 8\<rceil>\<close>, is no later than 9999-12-31, the operation
  returns status \<^verbatim>\<open>success\<close> with the identifiers of the timesheets it added to the
  store, in order; the list may be empty.
\<close>

theorem success_when_slots_found:
  assumes "strptime start_date = Some s" and "strptime end_date = Some e"
    and "valid_date s" and "valid_date e" and "s \<le> e"
    and "search_slots env partner_id specific_slot_id \<noteq> []"
    and "\<forall>sl\<in>set (search_slots env partner_id specific_slot_id).
           e + \<lceil>(slot_total_hours specific_slot_id sl - 8 * of_int (e - s + 1)) / 8\<rceil> \<le> date_max"
  shows "\<exists>env' new. create_timesheet_from_effective_hours strptime env partner_id start_date
            end_date specific_slot_id specific_hours =
          Inr (\<lparr>status = ''success'',
                message = ''Created '' @ str_nat (length new) @ '' timesheet entries.'',
                timesheet_ids = Some (map ts_id new)\<rparr>, env')
        \<and> analytic_lines env' = analytic_lines env @ new"
proof -
  from slots_loop_returns [OF assms(3,4,5,7), of env "[]"] obtain env' new where
    run: "slots_loop specific_slot_id s e (search_slots env partner_id specific_slot_id) env [] =
        Inr (env', map ts_id new)"
    and lines: "analytic_lines env' = analytic_lines env @ new"
    by auto
  have "create_timesheet_from_effective_hours strptime env partner_id start_date
            end_date specific_slot_id specific_hours =
          Inr (\<lparr>status = ''success'',
                message = ''Created '' @ str_nat (length new) @ '' timesheet entries.'',
                timesheet_ids = Some (map ts_id new)\<rparr>, env')"
    using assms(1,2,5,6) run
    by (simp add: create_timesheet_from_effective_hours_def success_response_def Let_def)
  with lines show ?thesis by blast
qed

theorem success_when_slots_found_witness:
  "sample_strptime ''2025-05-16'' = Some 739387 \<and> sample_strptime ''2025-05-19'' = Some 739390
   \<and> valid_date 739387 \<and> valid_date 739390 \<and> (739387 :: date) \<le> 739390
   \<and> search_slots sample_env_done 3 (Some 7) = [sample_slot]
   \<and> slot_total_hours (Some 7) sample_slot = 16
   \<and> 739390 + \<lceil>((16 :: hours) - 8 * of_int (739390 - 739387 + 1)) / 8\<rceil> \<le> date_max
   \<and> (\<exists>env' new. create_timesheet_from_effective_hours sample_strptime sample_env_done 3
        ''2025-05-16'' ''2025-05-19'' (Some 7) None =
          Inr (\<lparr>status = ''success'',
                message = ''Created '' @ str_nat (length new) @ '' timesheet entries.'',
                timesheet_ids = Some (map ts_id new)\<rparr>, env')
        \<and> analytic_lines env' = analytic_lines sample_env_done @ new)
   \<and> create_timesheet_from_effective_hours sample_strptime sample_env_done 3 ''2025-05-16''
        ''2025-05-19'' (Some 7) None =
      Inr (\<lparr>status = ''success'', message = ''Created 0 timesheet entries.'',
            timesheet_ids = Some []\<rparr>, sample_env_done)"
proof -
  have p: "sample_strptime ''2025-05-16'' = Some 739387" "sample_strptime ''2025-05-19'' = Some 739390"
    by (simp_all add: sample_strptime_def)
  have v: "valid_date 739387" "valid_date 739390"
    by (simp_all add: valid_date_def date_max_def)
  have found: "search_slots sample_env_done 3 (Some 7) = [sample_slot]"
    by (simp add: search_slots_def truthy_def sample_env_done_def sample_slot_def)
  have total: "slot_total_hours (Some 7) sample_slot = 16"
    by (simp add: slot_total_hours_def truthy_def sample_slot_def)
  have fits: "739390 + \<lceil>((16 :: hours) - 8 * of_int (739390 - 739387 + 1)) / 8\<rceil> \<le> date_max"
    by (simp add: date_max_def)
  have all: "\<forall>sl\<in>set (search_slots sample_env_done 3 (Some 7)).
      739390 + \<lceil>(slot_total_hours (Some 7) sl - 8 * of_int (739390 - 739387 + 1)) / 8\<rceil>
         \<le> date_max"
    unfolding found using total fits by simp
  have run: "create_timesheet_from_effective_hours sample_strptime sample_env_done 3
        ''2025-05-16'' ''2025-05-19'' (Some 7) None =
      Inr (\<lparr>status = ''success'', message = ''Created 0 timesheet entries.'',
            timesheet_ids = Some []\<rparr>, sample_env_done)"
    by (simp add: run_defs sample_strptime_def sample_env_done_def sample_slot_def
        sample_line_def py_range_4)
  have le: "(739387 :: date) \<le> 739390"
    by simp
  have ne: "search_slots sample_env_done 3 (Some 7) \<noteq> []"
    unfolding found by simp
  from success_when_slots_found [where strptime = sample_strptime
      and start_date = "''2025-05-16''" and end_date = "''2025-05-19''"
      and env = sample_env_done and specific_hours = None, OF p v le ne all]
  have "\<exists>env' new. create_timesheet_from_effective_hours sample_strptime sample_env_done 3
        ''2025-05-16'' ''2025-05-19'' (Some 7) None =
          Inr (\<lparr>status = ''success'',
                message = ''Created '' @ str_nat (length new) @ '' timesheet entries.'',
                timesheet_ids = Some (map ts_id new)\<rparr>, env')
        \<and> analytic_lines env' = analytic_lines sample_env_done @ new" .
  with p v le found total fits run show ?thesis
    by blast
qed

text \<open>
  Claim C8 as stated fails where the days after the range leave the calendar: with valid
  inputs and the slot of 16 hours found, the range of the single day 9999-12-31 makes the
  operation raise \<^verbatim>\<open>OverflowError\<close> instead of returning a dictionary.
\<close>

theorem publish_on_last_date_raises:
  "sample_strptime ''9999-12-31'' = Some 3652059 \<and> valid_date 3652059
   \<and> search_slots sample_env 3 (Some 7) = [sample_slot]
   \<and> create_timesheet_from_effective_hours sample_strptime sample_env 3 ''9999-12-31''
        ''9999-12-31'' (Some 7) None = Inl OverflowError"
  by (simp add: run_defs sample_strptime_def sample_env_def sample_slot_def py_range_1)

text \<open>
  Claim C9. Two calls that differ only in \<open>specific_hours\<close> have the same outcome: the
  same returned dictionary and store, or the same error; for
  \<^verbatim>\<open>create_timesheet_from_effective_hours\<close> and for \<^verbatim>\<open>action_generate_timesheets\<close>.
\<close>

theorem specific_hours_ignored:
  "create_timesheet_from_effective_hours strptime env partner_id start_date end_date
       specific_slot_id specific_hours =
   create_timesheet_from_effective_hours strptime env partner_id start_date end_date
       specific_slot_id specific_hours'
   \<and> action_generate_timesheets strptime env partner_id start_date end_date
       specific_slot_id specific_hours =
     action_generate_timesheets strptime env partner_id start_date end_date
       specific_slot_id specific_hours'"
  by (simp add: create_timesheet_from_effective_hours_def action_generate_timesheets_def)

theorem specific_hours_ignored_witness:
  "create_timesheet_from_effective_hours sample_strptime sample_env 3 ''2025-05-16''
       ''2025-05-19'' (Some 7) (Some 40) =
   create_timesheet_from_effective_hours sample_strptime sample_env 3 ''2025-05-16''
       ''2025-05-19'' (Some 7) None
   \<and> action_generate_timesheets sample_strptime sample_env 3 ''2025-05-16''
       ''2025-05-19'' (Some 7) (Some 40) =
     action_generate_timesheets sample_strptime sample_env 3 ''2025-05-16''
       ''2025-05-19'' (Some 7) None"
  by (rule specific_hours_ignored)

text \<open>
  Claim C10, as amended. The loop after the range ends for every number of remaining hours:
  each iteration takes the share \<open>min remaining 8\<close>, and \<open>\<lceil>remaining / 8\<rceil>\<close> iterations
  are enough for the loop to end. It returns, with no hours left when it started with some,
  when the day \<open>current_date + \<lceil>remaining / 8\<rceil>\<close> is no later than 9999-12-31; when hours
  remain and that day is later, it ends by raising \<^verbatim>\<open>OverflowError\<close>. Accordingly the
  distribution of \<open>total_hours > 0\<close> over a range of dates returns, with no hours left,
  when \<open>end_date + \<lceil>(total_hours - 8 * days) / 8\<rceil>\<close> is no later than 9999-12-31, and
  raises \<^verbatim>\<open>OverflowError\<close> otherwise.
\<close>

theorem spill_loop_iterations:
  "spill_loop_upto (nat \<lceil>r / 8\<rceil>) ex r cur data = Some (spill_loop ex r cur data)
   \<and> (valid_date cur \<and> cur + \<lceil>r / 8\<rceil> \<le> date_max \<longrightarrow>
        (\<exists>data'. spill_loop ex r cur data = Inr (min r 0, data')))
   \<and> (0 < r \<and> date_max < cur + \<lceil>r / 8\<rceil> \<longrightarrow>
        spill_loop ex r cur data = Inl OverflowError)
   \<and> (valid_date start_date \<and> valid_date end_date \<and> start_date \<le> end_date \<and> 0 < total_hours \<longrightarrow>
        (if end_date + \<lceil>(total_hours - 8 * of_int (end_date - start_date + 1)) / 8\<rceil> \<le> date_max
         then \<exists>allocs. distribute ex total_hours start_date end_date = Inr (0, allocs)
         else distribute ex total_hours start_date end_date = Inl OverflowError))"
proof (intro conjI impI)
  show "spill_loop_upto (nat \<lceil>r / 8\<rceil>) ex r cur data = Some (spill_loop ex r cur data)"
    by (rule spill_loop_upto_enough) simp
next
  assume "valid_date cur \<and> cur + \<lceil>r / 8\<rceil> \<le> date_max"
  then show "\<exists>data'. spill_loop ex r cur data = Inr (min r 0, data')"
    by (intro spill_loop_returns) simp_all
next
  assume "0 < r \<and> date_max < cur + \<lceil>r / 8\<rceil>"
  then show "spill_loop ex r cur data = Inl OverflowError"
    by (intro spill_loop_raises) simp_all
next
  assume a: "valid_date start_date \<and> valid_date end_date \<and> start_date \<le> end_date \<and> 0 < total_hours"
  let ?last = "end_date + \<lceil>(total_hours - 8 * of_int (end_date - start_date + 1)) / 8\<rceil>"
  show "if ?last \<le> date_max
    then \<exists>allocs. distribute ex total_hours start_date end_date = Inr (0, allocs)
    else distribute ex total_hours start_date end_date = Inl OverflowError"
  proof (cases "?last \<le> date_max")
    case True
    with a show ?thesis
      by (simp add: distribute_returns)
  next
    case False
    then have "date_max < ?last" by simp
    with a have "distribute ex total_hours start_date end_date = Inl OverflowError"
      by (intro distribute_raises) simp_all
    with False show ?thesis by simp
  qed
qed

theorem spill_loop_iterations_witness:
  "spill_loop_upto (nat \<lceil>(20 :: hours) / 8\<rceil>) (existing_on 739392) 20 739390 [] =
     Some (spill_loop (existing_on 739392) 20 739390 [])
   \<and> nat \<lceil>(20 :: hours) / 8\<rceil> = 3
   \<and> valid_date 739390 \<and> 739390 + \<lceil>(20 :: hours) / 8\<rceil> \<le> date_max
   \<and> (\<exists>data'. spill_loop (existing_on 739392) 20 739390 [] = Inr (min 20 0, data'))
   \<and> (0 :: hours) < 20 \<and> date_max < 3652058 + \<lceil>(20 :: hours) / 8\<rceil>
   \<and> spill_loop (existing_on 739392) 20 3652058 [] = Inl OverflowError
   \<and> valid_date 739387 \<and> (739387 :: date) \<le> 739390
   \<and> 739390 + \<lceil>((40 :: hours) - 8 * of_int (739390 - 739387 + 1)) / 8\<rceil> \<le> date_max
   \<and> (\<exists>allocs. distribute (existing_on 739392) 40 739387 739390 = Inr (0, allocs))
   \<and> valid_date 3652058 \<and> (3652058 :: date) \<le> 3652058
   \<and> \<not> 3652058 + \<lceil>((20 :: hours) - 8 * of_int (3652058 - 3652058 + 1)) / 8\<rceil> \<le> date_max
   \<and> distribute (existing_on 739392) 20 3652058 3652058 = Inl OverflowError"
proof -
  have c: "\<lceil>(20 :: hours) / 8\<rceil> = 3" "\<lceil>(12 :: hours) / 8\<rceil> = 2"
    by (simp_all add: ceiling_eq_iff)
  have v: "valid_date 739390" "739390 + \<lceil>(20 :: hours) / 8\<rceil> \<le> date_max"
    "date_max < 3652058 + \<lceil>(20 :: hours) / 8\<rceil>" "valid_date 739387" "valid_date 3652058"
    unfolding c by (simp_all add: valid_date_def date_max_def)
  have f: "739390 + \<lceil>((40 :: hours) - 8 * of_int (739390 - 739387 + 1)) / 8\<rceil> \<le> date_max"
    "\<not> 3652058 + \<lceil>((20 :: hours) - 8 * of_int (3652058 - 3652058 + 1)) / 8\<rceil> \<le> date_max"
    by (simp_all add: c date_max_def)
  note loop_a = spill_loop_iterations [where r = 20 and ex = "existing_on 739392"
      and cur = 739390 and data = "[]" and total_hours = 40 and start_date = 739387
      and end_date = 739390]
  note loop_b = spill_loop_iterations [where r = 20 and ex = "existing_on 739392"
      and cur = 3652058 and data = "[]" and total_hours = 20 and start_date = 3652058
      and end_date = 3652058]
  have 1: "spill_loop_upto (nat \<lceil>(20 :: hours) / 8\<rceil>) (existing_on 739392) 20 739390 [] =
     Some (spill_loop (existing_on 739392) 20 739390 [])"
    using loop_a by blast
  have 2: "\<exists>data'. spill_loop (existing_on 739392) 20 739390 [] = Inr (min 20 0, data')"
    using loop_a v by blast
  have 3: "spill_loop (existing_on 739392) 20 3652058 [] = Inl OverflowError"
    using loop_b v by simp
  have 4: "\<exists>allocs. distribute (existing_on 739392) 40 739387 739390 = Inr (0, allocs)"
    using loop_a v f by simp
  have 5: "distribute (existing_on 739392) 20 3652058 3652058 = Inl OverflowError"
    using loop_b v f by simp
  from c v f 1 2 3 4 5 show ?thesis
    by simp
qed

text \<open>
  Claim C10 as stated fails near the end of the calendar: with 12 hours remaining after
  9999-12-30 the loop allocates 8 hours on 9999-12-31 and raises \<^verbatim>\<open>OverflowError\<close> on
  the step to the next day; it does not return, and neither does the distribution of 20
  hours over the one-day range 9999-12-30.
\<close>

theorem spill_loop_past_last_date:
  "(0 :: hours) < 12 \<and> valid_date 3652058
   \<and> spill_loop no_existing 12 3652058 [] = Inl OverflowError
   \<and> (0 :: hours) < 20 \<and> (3652058 :: date) \<le> 3652058
   \<and> distribute no_existing 20 3652058 3652058 = Inl OverflowError"
  by (simp add: valid_date_def date_max_def spill_loop.simps date_add_def
      max_hours_per_day_def no_existing_def distribute_def py_range_1 range_loop_step)

end
